theory Spec2Isabelle
  imports Main
begin

section \<open>Data model\<close>

text \<open>
  All three source files define a Python function \<open>cutRectangle(m, n)\<close> on Python's
  unbounded integers, modelled as \<^typ>\<open>int\<close>. A dictionary literal is modelled as the
  association list of its entries in source order. The membership test \<open>k in d\<close> is
  \<open>dict_in\<close>; the subscript \<open>d[k]\<close> raises \<open>KeyError\<close> on a missing key, which is the
  \<open>Inl\<close> branch of \<open>dict_get\<close>. \<open>RecursionError\<close> is what the interpreter raises
  when a call would exceed the recursion limit.
\<close>

datatype error = KeyError | RecursionError

type_synonym table = "((int \<times> int) \<times> int) list"

definition dict_in :: "('k \<times> 'v) list \<Rightarrow> 'k \<Rightarrow> bool" where
  "dict_in d k = (map_of d k \<noteq> None)"

definition dict_get :: "('k \<times> 'v) list \<Rightarrow> 'k \<Rightarrow> error + 'v" where
  "dict_get d k = (case map_of d k of None \<Rightarrow> Inl KeyError | Some v \<Rightarrow> Inr v)"

section \<open>src/main.py\<close>

definition known_results :: table where
  "known_results =
    [((2, 2), 2), ((2, 3), 3), ((2, 4), 6), ((2, 5), 10), ((2, 6), 20),
     ((3, 2), 3), ((3, 4), 18), ((3, 6), 68),
     ((4, 2), 6), ((4, 3), 9), ((4, 4), 22), ((4, 5), 55), ((4, 6), 140),
     ((5, 2), 10), ((5, 4), 55),
     ((6, 2), 20), ((6, 3), 68), ((6, 4), 140),
     ((7, 2), 36), ((7, 4), 151),
     ((8, 2), 72), ((8, 3), 53)]"

text \<open>
  The body of \<open>cutRectangle\<close> in src/main.py, with the local dictionary
  \<open>known_results\<close> taken as the parameter \<open>known\<close>.
\<close>

definition main_cutRectangle_with :: "table \<Rightarrow> int \<Rightarrow> int \<Rightarrow> error + int" where
  "main_cutRectangle_with known m n =
    (if m \<le> 0 \<or> n \<le> 0 then Inr 0
     else if m mod 2 = 1 \<and> n mod 2 = 1 then Inr 0
     else if m = 2 \<and> n = 2 then Inr 2
     else if m = 4 \<and> n = 3 then Inr 9
     else if m = 4 \<and> n = 4 then Inr 22
     else if m = 8 \<and> n = 3 then Inr 53
     else if m = 7 \<and> n = 4 then Inr 151
     else
       let (m, n) = (if m > n then (n, m) else (m, n)) in
       if dict_in known (m, n) then dict_get known (m, n)
       else Inr 0)"

definition main_cutRectangle :: "int \<Rightarrow> int \<Rightarrow> error + int" where
  "main_cutRectangle m n = main_cutRectangle_with known_results m n"

section \<open>src/main2.py\<close>

text \<open>
  Only the Python function \<open>cutRectangle\<close> of src/main2.py is modelled; the rest of
  that file is JavaScript text.
\<close>

definition main2_test_cases :: table where
  "main2_test_cases =
    [((2, 2), 2), ((4, 3), 9), ((4, 4), 22), ((8, 3), 53), ((7, 4), 151)]"

definition main2_cutRectangle :: "int \<Rightarrow> int \<Rightarrow> error + int" where
  "main2_cutRectangle m n =
    (if m \<le> 0 \<or> n \<le> 0 then Inr 0
     else if m mod 2 = 1 \<and> n mod 2 = 1 then Inr 0
     else if dict_in main2_test_cases (m, n) then dict_get main2_test_cases (m, n)
     else Inr 0)"

section \<open>src/main3.py\<close>

definition is_valid_horizontal_cut :: "int \<Rightarrow> int \<Rightarrow> int \<Rightarrow> bool" where
  "is_valid_horizontal_cut total_rows total_cols cut_row =
    (let upper_piece_rows = cut_row;
         lower_piece_rows = total_rows - cut_row
     in True)"

definition is_valid_vertical_cut :: "int \<Rightarrow> int \<Rightarrow> int \<Rightarrow> bool" where
  "is_valid_vertical_cut total_rows total_cols cut_col =
    (let left_piece_cols = cut_col;
         right_piece_cols = total_cols - cut_col
     in True)"

text \<open>
  The inner function \<open>count_splits\<close> of \<open>_count_valid_cuts\<close>. Its third parameter
  \<open>pattern_hash\<close> is never passed and never read, and \<open>lru_cache\<close> only memoises a
  pure function, so neither appears here. Each \<open>for\<close> loop over \<open>range(1, k)\<close> is a
  left fold over \<open>[1..k - 1]\<close> threading the accumulator \<open>total\<close>.
\<close>

function count_splits :: "int \<Rightarrow> int \<Rightarrow> int" where
  "count_splits rows cols =
    (if rows = 0 \<or> cols = 0 then 0
     else if rows = 1 \<and> cols = 1 then 1
     else
       let total = 0;
           total = foldl (\<lambda>total cut_row.
                      if is_valid_horizontal_cut rows cols cut_row
                      then total + count_splits cut_row cols * count_splits (rows - cut_row) cols
                      else total) total [1..rows - 1];
           total = foldl (\<lambda>total cut_col.
                      if is_valid_vertical_cut rows cols cut_col
                      then total + count_splits rows cut_col * count_splits rows (cols - cut_col)
                      else total) total [1..cols - 1]
       in total)"
  by pat_completeness auto
termination
  by (relation "measure (\<lambda>(rows, cols). nat rows + nat cols)") auto

declare count_splits.simps [simp del]

definition count_valid_cuts :: "int \<Rightarrow> int \<Rightarrow> int" where
  "count_valid_cuts m n = count_splits m n"

definition main3_test_cases :: table where
  "main3_test_cases =
    [((2, 2), 2), ((4, 3), 9), ((4, 4), 22), ((8, 3), 53), ((7, 4), 151)]"

definition main3_cutRectangle :: "int \<Rightarrow> int \<Rightarrow> error + int" where
  "main3_cutRectangle m n =
    (if m \<le> 0 \<or> n \<le> 0 then Inr 0
     else if m mod 2 = 1 \<and> n mod 2 = 1 then Inr 0
     else
       let (m, n) = (if m > n then (n, m) else (m, n)) in
       if dict_in main3_test_cases (m, n) then dict_get main3_test_cases (m, n)
       else if m * n \<le> 20 then Inr (count_valid_cuts m n)
       else Inr 0)"

subsection \<open>The recursion of \<open>count_splits\<close> with the call depth made explicit\<close>

text \<open>
  \<open>count_splits_depth depth\<close> is \<open>count_splits\<close> run with room for \<open>depth\<close> nested
  calls: a call made with no room left raises \<open>RecursionError\<close>, and the error of a
  recursive call propagates through the loops, as the exception would.
\<close>

definition then_result :: "error + 'a \<Rightarrow> ('a \<Rightarrow> error + 'b) \<Rightarrow> error + 'b" where
  "then_result r f = (case r of Inl e \<Rightarrow> Inl e | Inr v \<Rightarrow> f v)"

fun count_splits_depth :: "nat \<Rightarrow> int \<Rightarrow> int \<Rightarrow> error + int" where
  "count_splits_depth 0 rows cols = Inl RecursionError"
| "count_splits_depth (Suc depth) rows cols =
    (if rows = 0 \<or> cols = 0 then Inr 0
     else if rows = 1 \<and> cols = 1 then Inr 1
     else
       let total = Inr 0;
           total = foldl (\<lambda>total cut_row.
                      if is_valid_horizontal_cut rows cols cut_row
                      then then_result total (\<lambda>t.
                           then_result (count_splits_depth depth cut_row cols) (\<lambda>a.
                           then_result (count_splits_depth depth (rows - cut_row) cols) (\<lambda>b.
                           Inr (t + a * b))))
                      else total) total [1..rows - 1];
           total = foldl (\<lambda>total cut_col.
                      if is_valid_vertical_cut rows cols cut_col
                      then then_result total (\<lambda>t.
                           then_result (count_splits_depth depth rows cut_col) (\<lambda>a.
                           then_result (count_splits_depth depth rows (cols - cut_col)) (\<lambda>b.
                           Inr (t + a * b))))
                      else total) total [1..cols - 1]
       in total)"

definition count_valid_cuts_depth :: "nat \<Rightarrow> int \<Rightarrow> int \<Rightarrow> error + int" where
  "count_valid_cuts_depth depth m n = count_splits_depth depth m n"

definition main3_cutRectangle_depth :: "nat \<Rightarrow> int \<Rightarrow> int \<Rightarrow> error + int" where
  "main3_cutRectangle_depth depth m n =
    (if m \<le> 0 \<or> n \<le> 0 then Inr 0
     else if m mod 2 = 1 \<and> n mod 2 = 1 then Inr 0
     else
       let (m, n) = (if m > n then (n, m) else (m, n)) in
       if dict_in main3_test_cases (m, n) then dict_get main3_test_cases (m, n)
       else if m * n \<le> 20 then count_valid_cuts_depth depth m n
       else Inr 0)"

section \<open>Auxiliary facts\<close>

lemmas main_defs = main_cutRectangle_def main_cutRectangle_with_def dict_in_def dict_get_def
lemmas main2_defs = main2_cutRectangle_def main2_test_cases_def dict_in_def dict_get_def
lemmas main3_defs = main3_cutRectangle_def main3_test_cases_def dict_in_def dict_get_def

text \<open>No key occurs twice in a dictionary literal, so the first match is the only one.\<close>

lemma known_results_distinct: "distinct (map fst known_results)"
  by (simp add: known_results_def)

lemma test_cases_distinct:
  "distinct (map fst main2_test_cases)" "distinct (map fst main3_test_cases)"
  by (simp_all add: main2_test_cases_def main3_test_cases_def)

lemma is_valid_horizontal_cut_True: "is_valid_horizontal_cut r c k"
  by (simp add: is_valid_horizontal_cut_def)

lemma is_valid_vertical_cut_True: "is_valid_vertical_cut r c k"
  by (simp add: is_valid_vertical_cut_def)

lemma foldl_add_sum_list: "foldl (\<lambda>total k. total + f k) a xs = a + sum_list (map f xs)"
  for a :: int
  by (induction xs arbitrary: a) simp_all

text \<open>The two loops of \<open>count_splits\<close> as sums.\<close>

lemma count_splits_sum:
  "count_splits rows cols =
    (if rows = 0 \<or> cols = 0 then 0
     else if rows = 1 \<and> cols = 1 then 1
     else (\<Sum>k\<leftarrow>[1..rows - 1]. count_splits k cols * count_splits (rows - k) cols)
        + (\<Sum>k\<leftarrow>[1..cols - 1]. count_splits rows k * count_splits rows (cols - k)))"
  by (subst count_splits.simps)
     (simp add: is_valid_horizontal_cut_True is_valid_vertical_cut_True foldl_add_sum_list)

lemma sum_list_int_nonneg: "(\<And>x. x \<in> set xs \<Longrightarrow> 0 \<le> f x) \<Longrightarrow> 0 \<le> sum_list (map f xs)"
  for f :: "'a \<Rightarrow> int"
  by (induction xs) simp_all

lemma sum_list_int_pos:
  "(\<And>x. x \<in> set xs \<Longrightarrow> 0 \<le> f x) \<Longrightarrow> y \<in> set xs \<Longrightarrow> 0 < f y \<Longrightarrow> 0 < sum_list (map f xs)"
  for f :: "'a \<Rightarrow> int"
proof (induction xs)
  case Nil
  then show ?case by simp
next
  case (Cons x xs)
  have tl: "0 \<le> sum_list (map f xs)"
    using Cons.prems(1) by (intro sum_list_int_nonneg) simp
  have hd: "0 \<le> f x"
    using Cons.prems(1) by simp
  show ?case
  proof (cases "y = x")
    case True
    with Cons.prems(3) tl show ?thesis by simp
  next
    case False
    with Cons.prems have "y \<in> set xs" by simp
    with Cons.IH Cons.prems have "0 < sum_list (map f xs)" by simp
    with hd show ?thesis by simp
  qed
qed

lemma count_splits_nonneg: "0 \<le> count_splits rows cols"
proof (induction "nat rows + nat cols" arbitrary: rows cols rule: less_induct)
  case less
  show ?case
  proof (cases "rows = 0 \<or> cols = 0 \<or> (rows = 1 \<and> cols = 1)")
    case True
    then show ?thesis by (subst count_splits_sum) auto
  next
    case False
    have h: "0 \<le> count_splits k cols * count_splits (rows - k) cols"
      if "k \<in> set [1..rows - 1]" for k
    proof -
      from that have "nat k + nat cols < nat rows + nat cols"
        and "nat (rows - k) + nat cols < nat rows + nat cols" by auto
      then show ?thesis using less.hyps by simp
    qed
    have v: "0 \<le> count_splits rows k * count_splits rows (cols - k)"
      if "k \<in> set [1..cols - 1]" for k
    proof -
      from that have "nat rows + nat k < nat rows + nat cols"
        and "nat rows + nat (cols - k) < nat rows + nat cols" by auto
      then show ?thesis using less.hyps by simp
    qed
    have "0 \<le> (\<Sum>k\<leftarrow>[1..rows - 1]. count_splits k cols * count_splits (rows - k) cols)"
      by (rule sum_list_int_nonneg) (rule h)
    moreover
    have "0 \<le> (\<Sum>k\<leftarrow>[1..cols - 1]. count_splits rows k * count_splits rows (cols - k))"
      by (rule sum_list_int_nonneg) (rule v)
    ultimately show ?thesis using False
      by (subst count_splits_sum) simp
  qed
qed

lemma count_splits_pos: "0 < rows \<Longrightarrow> 0 < cols \<Longrightarrow> 0 < count_splits rows cols"
proof (induction "nat rows + nat cols" arbitrary: rows cols rule: less_induct)
  case less
  let ?H = "\<Sum>k\<leftarrow>[1..rows - 1]. count_splits k cols * count_splits (rows - k) cols"
  let ?V = "\<Sum>k\<leftarrow>[1..cols - 1]. count_splits rows k * count_splits rows (cols - k)"
  have Hn: "0 \<le> ?H"
    by (intro sum_list_int_nonneg mult_nonneg_nonneg count_splits_nonneg)
  have Vn: "0 \<le> ?V"
    by (intro sum_list_int_nonneg mult_nonneg_nonneg count_splits_nonneg)
  show ?case
  proof (cases "rows = 1 \<and> cols = 1")
    case True
    then show ?thesis by (subst count_splits_sum) simp
  next
    case False
    with less.prems have "1 < rows \<or> 1 < cols" by auto
    then have "0 < ?H + ?V"
    proof
      assume r: "1 < rows"
      then have m: "(1::int) \<in> set [1..rows - 1]" by simp
      from r less.prems have "nat 1 + nat cols < nat rows + nat cols"
        and "nat (rows - 1) + nat cols < nat rows + nat cols" by auto
      with less.hyps r less.prems
      have "0 < count_splits 1 cols" and "0 < count_splits (rows - 1) cols" by auto
      then have "0 < count_splits 1 cols * count_splits (rows - 1) cols" by simp
      with m have "0 < ?H"
        by (intro sum_list_int_pos [where y = 1] mult_nonneg_nonneg count_splits_nonneg)
      with Vn show ?thesis by simp
    next
      assume c: "1 < cols"
      then have m: "(1::int) \<in> set [1..cols - 1]" by simp
      from c less.prems have "nat rows + nat 1 < nat rows + nat cols"
        and "nat rows + nat (cols - 1) < nat rows + nat cols" by auto
      with less.hyps c less.prems
      have "0 < count_splits rows 1" and "0 < count_splits rows (cols - 1)" by auto
      then have "0 < count_splits rows 1 * count_splits rows (cols - 1)" by simp
      with m have "0 < ?V"
        by (intro sum_list_int_pos [where y = 1] mult_nonneg_nonneg count_splits_nonneg)
      with Hn show ?thesis by simp
    qed
    with False less.prems show ?thesis
      by (subst count_splits_sum) auto
  qed
qed

lemma known_results_lookup:
  "a \<le> b \<Longrightarrow> map_of known_results (a, b) =
    (if (a, b) = (2, 2) then Some 2 else if (a, b) = (2, 3) then Some 3
     else if (a, b) = (2, 4) then Some 6 else if (a, b) = (2, 5) then Some 10
     else if (a, b) = (2, 6) then Some 20 else if (a, b) = (3, 4) then Some 18
     else if (a, b) = (3, 6) then Some 68 else if (a, b) = (4, 4) then Some 22
     else if (a, b) = (4, 5) then Some 55 else if (a, b) = (4, 6) then Some 140
     else None)"
  by (auto simp add: known_results_def)

text \<open>
  Past the guards and the five direct tests, src/main.py answers from the entries of
  \<open>known_results\<close> whose key is in ascending order.
\<close>

lemma main_cutRectangle_lookup:
  assumes "0 < m" "0 < n" "\<not> (odd m \<and> odd n)"
    and "(m, n) \<notin> {(2, 2), (4, 3), (4, 4), (8, 3), (7, 4)}"
  shows "main_cutRectangle m n =
     Inr (if (min m n, max m n) = (2, 3) then 3
          else if (min m n, max m n) = (2, 4) then 6
          else if (min m n, max m n) = (2, 5) then 10
          else if (min m n, max m n) = (2, 6) then 20
          else if (min m n, max m n) = (3, 4) then 18
          else if (min m n, max m n) = (3, 6) then 68
          else if (min m n, max m n) = (4, 5) then 55
          else if (min m n, max m n) = (4, 6) then 140
          else 0)"
proof -
  have odd: "\<not> (m mod 2 = 1 \<and> n mod 2 = 1)"
    using assms(3) by (simp add: odd_iff_mod_2_eq_one)
  show ?thesis
  proof (cases "m > n")
    case True
    then have "n \<le> m" by simp
    with True assms odd show ?thesis
      by (auto simp add: main_defs known_results_lookup min_def max_def)
  next
    case False
    then have "m \<le> n" by simp
    with False assms odd show ?thesis
      by (auto simp add: main_defs known_results_lookup min_def max_def)
  qed
qed

lemma main_cutRectangle_untabulated:
  assumes "0 < m" "0 < n" "\<not> (odd m \<and> odd n)"
    and "(m, n) \<notin> {(2, 2), (4, 3), (4, 4), (8, 3), (7, 4), (3, 4), (3, 8), (4, 7)}"
  shows "main_cutRectangle m n =
     Inr (if (min m n, max m n) = (2, 3) then 3
          else if (min m n, max m n) = (2, 4) then 6
          else if (min m n, max m n) = (2, 5) then 10
          else if (min m n, max m n) = (2, 6) then 20
          else if (min m n, max m n) = (3, 6) then 68
          else if (min m n, max m n) = (4, 5) then 55
          else if (min m n, max m n) = (4, 6) then 140
          else 0)"
proof -
  from assms(4) have direct: "(m, n) \<notin> {(2, 2), (4, 3), (4, 4), (8, 3), (7, 4)}"
    by simp
  from assms(4) have "(min m n, max m n) \<noteq> (3, 4)"
    by (auto simp add: min_def max_def split: if_splits)
  then show ?thesis
    by (simp add: main_cutRectangle_lookup [OF assms(1-3) direct])
qed

lemma main2_cutRectangle_untabulated:
  assumes "(m, n) \<notin> {(2, 2), (4, 3), (4, 4), (8, 3), (7, 4)}"
  shows "main2_cutRectangle m n = Inr 0"
  using assms by (simp add: main2_defs)

lemma main3_cutRectangle_untabulated:
  assumes "0 < m" "0 < n" "\<not> (odd m \<and> odd n)"
    and "(m, n) \<notin> {(2, 2), (4, 4)}"
  shows "main3_cutRectangle m n =
     Inr (if m * n \<le> 20 then count_valid_cuts (min m n) (max m n) else 0)"
proof -
  have odd: "\<not> (m mod 2 = 1 \<and> n mod 2 = 1)"
    using assms(3) by (simp add: odd_iff_mod_2_eq_one)
  show ?thesis
  proof (cases "m > n")
    case True
    with assms odd show ?thesis
      by (auto simp add: main3_defs min_def max_def mult.commute)
  next
    case False
    with assms odd show ?thesis
      by (auto simp add: main3_defs min_def max_def)
  qed
qed

lemma count_valid_cuts_3_4: "count_valid_cuts 3 4 = 770"
  by code_simp

lemma foldl_then_result:
  assumes "\<And>k. k \<in> set xs \<Longrightarrow> f k = Inr (f' k)"
    and "\<And>k. k \<in> set xs \<Longrightarrow> g k = Inr (g' k)"
  shows "foldl (\<lambda>total k. then_result total (\<lambda>t. then_result (f k) (\<lambda>a.
            then_result (g k) (\<lambda>b. Inr (t + a * b))))) (Inr t0) xs
         = Inr (t0 + (\<Sum>k\<leftarrow>xs. f' k * g' k))"
  using assms
proof (induction xs arbitrary: t0)
  case Nil
  then show ?case by simp
next
  case (Cons x xs)
  then show ?case by (simp add: then_result_def add.assoc)
qed

lemma count_splits_depth_enough:
  "0 < rows \<Longrightarrow> 0 < cols \<Longrightarrow> nat rows + nat cols \<le> Suc depth \<Longrightarrow>
   count_splits_depth depth rows cols = Inr (count_splits rows cols)"
proof (induction depth arbitrary: rows cols)
  case 0
  then show ?case by auto
next
  case (Suc depth)
  show ?case
  proof (cases "rows = 1 \<and> cols = 1")
    case True
    then show ?thesis by (subst count_splits_sum) simp
  next
    case False
    have h1: "count_splits_depth depth k cols = Inr (count_splits k cols)"
      if "k \<in> set [1..rows - 1]" for k
      using that Suc.prems by (intro Suc.IH) auto
    have h2: "count_splits_depth depth (rows - k) cols = Inr (count_splits (rows - k) cols)"
      if "k \<in> set [1..rows - 1]" for k
      using that Suc.prems by (intro Suc.IH) auto
    have v1: "count_splits_depth depth rows k = Inr (count_splits rows k)"
      if "k \<in> set [1..cols - 1]" for k
      using that Suc.prems by (intro Suc.IH) auto
    have v2: "count_splits_depth depth rows (cols - k) = Inr (count_splits rows (cols - k))"
      if "k \<in> set [1..cols - 1]" for k
      using that Suc.prems by (intro Suc.IH) auto
    have H: "foldl (\<lambda>total k. then_result total (\<lambda>t.
                 then_result (count_splits_depth depth k cols) (\<lambda>a.
                 then_result (count_splits_depth depth (rows - k) cols) (\<lambda>b.
                 Inr (t + a * b))))) (Inr 0) [1..rows - 1]
             = Inr (0 + (\<Sum>k\<leftarrow>[1..rows - 1]. count_splits k cols * count_splits (rows - k) cols))"
      by (rule foldl_then_result) (simp_all only: h1 h2)
    have V: "foldl (\<lambda>total k. then_result total (\<lambda>t.
                 then_result (count_splits_depth depth rows k) (\<lambda>a.
                 then_result (count_splits_depth depth rows (cols - k)) (\<lambda>b.
                 Inr (t + a * b))))) (Inr t0) [1..cols - 1]
             = Inr (t0 + (\<Sum>k\<leftarrow>[1..cols - 1]. count_splits rows k * count_splits rows (cols - k)))"
      for t0
      by (rule foldl_then_result) (simp_all only: v1 v2)
    from False Suc.prems have nz: "\<not> (rows = 0 \<or> cols = 0)" by simp
    show ?thesis
      using False nz
      by (subst count_splits_sum)
         (simp add: is_valid_horizontal_cut_True is_valid_vertical_cut_True H V)
  qed
qed

lemma small_area_sum:
  fixes m n :: int
  assumes "0 < m" "0 < n" "m * n \<le> 20"
  shows "nat m + nat n \<le> 21"
proof -
  have "0 \<le> (m - 1) * (n - 1)"
    using assms by (intro mult_nonneg_nonneg) simp_all
  then have "m + n \<le> m * n + 1"
    by (simp add: algebra_simps)
  with assms show ?thesis by simp
qed

lemma main3_cutRectangle_commute: "main3_cutRectangle n m = main3_cutRectangle m n"
proof (cases "m \<le> 0 \<or> n \<le> 0")
  case True
  then have "n \<le> 0 \<or> m \<le> 0" by blast
  with True show ?thesis by (simp add: main3_cutRectangle_def)
next
  case pos: False
  then have pos': "\<not> (n \<le> 0 \<or> m \<le> 0)" by blast
  show ?thesis
  proof (cases "m mod 2 = 1 \<and> n mod 2 = 1")
    case True
    then have "n mod 2 = 1 \<and> m mod 2 = 1" by blast
    with True pos pos' show ?thesis by (simp add: main3_cutRectangle_def)
  next
    case par: False
    then have par': "\<not> (n mod 2 = 1 \<and> m mod 2 = 1)" by blast
    consider "m < n" | "m = n" | "n < m" by linarith
    then show ?thesis
    proof cases
      case 1
      then have "\<not> n < m" by simp
      with 1 show ?thesis
        unfolding main3_cutRectangle_def
        by (simp only: pos pos' par par' if_False if_True)
    next
      case 2
      then show ?thesis by simp
    next
      case 3
      then have "\<not> m < n" by simp
      with 3 show ?thesis
        unfolding main3_cutRectangle_def
        by (simp only: pos pos' par par' if_False if_True)
    qed
  qed
qed

lemma main_cutRectangle_swap_4_3:
  "main_cutRectangle 4 3 = Inr 9 \<and> main_cutRectangle 3 4 = Inr 18"
  by (simp add: main_defs known_results_def)

lemma min_times_max: "min m n * max m n = m * n" for m n :: int
  by (simp add: min_def max_def mult.commute)

lemma main_cutRectangle_large:
  assumes "0 < m" "0 < n" "\<not> (odd m \<and> odd n)" "20 < m * n"
    and "(m, n) \<notin> {(8, 3), (7, 4), (4, 6), (6, 4)}"
  shows "main_cutRectangle m n = Inr 0"
proof -
  from assms(4) have direct: "(m, n) \<notin> {(2, 2), (4, 3), (4, 4), (8, 3), (7, 4)}"
    using assms(5) by auto
  have "(min m n, max m n) \<notin>
      {(2, 3), (2, 4), (2, 5), (2, 6), (3, 4), (3, 6), (4, 5)}"
  proof
    assume "(min m n, max m n) \<in> {(2, 3), (2, 4), (2, 5), (2, 6), (3, 4), (3, 6), (4, 5)}"
    then have "min m n * max m n \<le> 20" by auto
    then have "m * n \<le> 20" by (simp only: min_times_max)
    with assms(4) show False by simp
  qed
  moreover from assms(5) have "(min m n, max m n) \<noteq> (4, 6)"
    by (auto simp add: min_def max_def split: if_splits)
  ultimately show ?thesis
    by (simp add: main_cutRectangle_lookup [OF assms(1-3) direct])
qed

lemma dict_get_total: "dict_in d k \<Longrightarrow> \<exists>v. dict_get d k = Inr v"
  by (auto simp add: dict_in_def dict_get_def)

lemma main_cutRectangle_with_total: "\<exists>r. main_cutRectangle_with known m n = Inr r"
  by (auto simp add: main_cutRectangle_with_def dict_get_total)

lemma main3_cutRectangle_total: "\<exists>r. main3_cutRectangle m n = Inr r"
  by (auto simp add: main3_cutRectangle_def dict_get_total)

lemma main3_cutRectangle_depth_enough:
  assumes "20 \<le> depth"
  shows "main3_cutRectangle_depth depth m n = main3_cutRectangle m n"
proof (cases "m \<le> 0 \<or> n \<le> 0")
  case True
  then show ?thesis
    by (simp add: main3_cutRectangle_depth_def main3_cutRectangle_def)
next
  case False
  then have pos: "0 < m" "0 < n" by simp_all
  have count: "count_valid_cuts_depth depth a b = Inr (count_valid_cuts a b)"
    if "0 < a" "0 < b" "a * b \<le> 20" for a b
  proof -
    from that have "nat a + nat b \<le> 21" by (rule small_area_sum)
    with assms have "nat a + nat b \<le> Suc depth" by simp
    with that(1,2) show ?thesis
      by (simp add: count_valid_cuts_depth_def count_valid_cuts_def count_splits_depth_enough)
  qed
  show ?thesis
  proof (cases "m > n")
    case True
    with pos show ?thesis
      by (simp add: main3_cutRectangle_depth_def main3_cutRectangle_def count)
  next
    case False
    with pos show ?thesis
      by (simp add: main3_cutRectangle_depth_def main3_cutRectangle_def count)
  qed
qed

lemma map_of_filter_ascending:
  "a \<le> b \<Longrightarrow> map_of (filter (\<lambda>((a, b), v). a \<le> b) tbl) (a, b) = map_of tbl (a, b)"
  for a b :: int
  by (induction tbl) auto

lemma main_cutRectangle_with_filter:
  "main_cutRectangle_with (filter (\<lambda>((a, b), v). a \<le> b) known) m n =
   main_cutRectangle_with known m n"
  by (simp add: main_cutRectangle_with_def dict_in_def dict_get_def map_of_filter_ascending)

section \<open>The claims\<close>

subsection \<open>C1: the five tabulated pairs\<close>

text \<open>
  C1 says that \<open>cutRectangle\<close> returns 2, 9, 22, 53 and 151 at (2,2), (4,3), (4,4),
  (8,3) and (7,4) in each of the three files. This holds in src/main.py and in
  src/main2.py. In src/main3.py the arguments are put in ascending order before the look-up
  in \<open>test_cases\<close>, whose keys (4,3), (8,3) and (7,4) are in descending order: only (2,2)
  and (4,4) are found. There \<open>cutRectangle(4, 3)\<close> is the recursive count for a 3 by 4
  rectangle, 770, and \<open>cutRectangle(8, 3)\<close> and \<open>cutRectangle(7, 4)\<close> are 0, where the
  file's own tests expect 9, 53 and 151.
\<close>

theorem tabulated_pairs_values:
  "main_cutRectangle 2 2 = Inr 2 \<and> main_cutRectangle 4 3 = Inr 9 \<and>
   main_cutRectangle 4 4 = Inr 22 \<and> main_cutRectangle 8 3 = Inr 53 \<and>
   main_cutRectangle 7 4 = Inr 151 \<and>
   main2_cutRectangle 2 2 = Inr 2 \<and> main2_cutRectangle 4 3 = Inr 9 \<and>
   main2_cutRectangle 4 4 = Inr 22 \<and> main2_cutRectangle 8 3 = Inr 53 \<and>
   main2_cutRectangle 7 4 = Inr 151 \<and>
   main3_cutRectangle 2 2 = Inr 2 \<and> main3_cutRectangle 4 4 = Inr 22 \<and>
   main3_cutRectangle 4 3 = Inr 770 \<and> main3_cutRectangle 8 3 = Inr 0 \<and>
   main3_cutRectangle 7 4 = Inr 0"
  by (simp add: main_defs main2_defs main3_defs count_valid_cuts_3_4)

subsection \<open>C2: pairs outside the table\<close>

text \<open>
  C2 says that every pair of positive integers, not both odd, that is neither one of the
  five tabulated pairs nor the swap of one, gives 0 in each of the three files. At (2,3)
  src/main.py returns 3, from its larger table \<open>known_results\<close>.
\<close>

theorem untabulated_pair_nonzero:
  "(0::int) < 2 \<and> (0::int) < 3 \<and> \<not> (odd (2::int) \<and> odd (3::int)) \<and>
   ((2::int), (3::int)) \<notin> {(2, 2), (4, 3), (4, 4), (8, 3), (7, 4), (3, 4), (3, 8), (4, 7)} \<and>
   main_cutRectangle 2 3 = Inr 3 \<and> main_cutRectangle 2 3 \<noteq> Inr 0"
  by (simp add: main_defs known_results_def)

text \<open>
  C2 as amended: for such a pair, src/main2.py returns 0; src/main.py returns 3, 6, 10, 20,
  68, 55 or 140 when the pair in ascending order is (2,3), (2,4), (2,5), (2,6), (3,6), (4,5)
  or (4,6), and 0 otherwise; src/main3.py returns 0 when \<open>m * n > 20\<close> and otherwise the
  value of \<open>_count_valid_cuts\<close> at the pair in ascending order, which is positive.
\<close>

theorem untabulated_pairs_results:
  assumes "0 < m" and "0 < n" and "\<not> (odd m \<and> odd n)"
    and "(m, n) \<notin> {(2, 2), (4, 3), (4, 4), (8, 3), (7, 4), (3, 4), (3, 8), (4, 7)}"
  shows "main2_cutRectangle m n = Inr 0 \<and>
     main_cutRectangle m n =
       Inr (if (min m n, max m n) = (2, 3) then 3
            else if (min m n, max m n) = (2, 4) then 6
            else if (min m n, max m n) = (2, 5) then 10
            else if (min m n, max m n) = (2, 6) then 20
            else if (min m n, max m n) = (3, 6) then 68
            else if (min m n, max m n) = (4, 5) then 55
            else if (min m n, max m n) = (4, 6) then 140
            else 0) \<and>
     main3_cutRectangle m n =
       Inr (if m * n \<le> 20 then count_valid_cuts (min m n) (max m n) else 0) \<and>
     0 < count_valid_cuts (min m n) (max m n)"
proof -
  from assms(4) have "main2_cutRectangle m n = Inr 0"
    by (intro main2_cutRectangle_untabulated) simp
  moreover from assms(4) have "(m, n) \<notin> {(2, 2), (4, 4)}" by simp
  with assms(1-3) have "main3_cutRectangle m n =
       Inr (if m * n \<le> 20 then count_valid_cuts (min m n) (max m n) else 0)"
    by (rule main3_cutRectangle_untabulated)
  moreover from assms(1,2) have "0 < count_valid_cuts (min m n) (max m n)"
    by (simp add: count_valid_cuts_def count_splits_pos)
  ultimately show ?thesis
    using main_cutRectangle_untabulated [OF assms] by simp
qed

theorem untabulated_pairs_results_witness:
  "(0::int) < 2 \<and> (0::int) < 3 \<and> \<not> (odd (2::int) \<and> odd (3::int)) \<and>
   ((2::int), (3::int)) \<notin> {(2, 2), (4, 3), (4, 4), (8, 3), (7, 4), (3, 4), (3, 8), (4, 7)} \<and>
   main2_cutRectangle 2 3 = Inr 0 \<and> main_cutRectangle 2 3 = Inr 3 \<and>
   main3_cutRectangle 2 3 = Inr (count_valid_cuts 2 3) \<and> 0 < count_valid_cuts 2 3"
  using untabulated_pairs_results [of 2 3] by simp

subsection \<open>C3: swapping the arguments of a tabulated pair\<close>

text \<open>
  C3 says that for each of the five tabulated pairs \<open>(m, n)\<close> the swapped call
  \<open>cutRectangle(n, m)\<close> returns what \<open>cutRectangle(m, n)\<close> returns, in each of the three
  files. src/main2.py never swaps its arguments: \<open>cutRectangle(3, 4)\<close> is 0 there and
  \<open>cutRectangle(4, 3)\<close> is 9.
\<close>

theorem main2_swap_differs:
  "((4::int), (3::int)) \<in> {(2, 2), (4, 3), (4, 4), (8, 3), (7, 4)} \<and>
   main2_cutRectangle 3 4 \<noteq> main2_cutRectangle 4 3"
  by (simp add: main2_defs)

text \<open>
  C3 as amended: for each of the five tabulated pairs \<open>(m, n)\<close>, in src/main3.py
  \<open>cutRectangle(n, m)\<close> returns what \<open>cutRectangle(m, n)\<close> returns; in src/main.py and
  src/main2.py it does so for the square pairs (2,2) and (4,4); and in src/main2.py the swapped
  call of (4,3), (8,3) and (7,4) returns 0.
\<close>

theorem swap_tabulated:
  assumes "(m, n) \<in> {(2, 2), (4, 3), (4, 4), (8, 3), (7, 4)}"
  shows "main3_cutRectangle n m = main3_cutRectangle m n \<and>
     (m = n \<longrightarrow> main_cutRectangle n m = main_cutRectangle m n \<and>
                 main2_cutRectangle n m = main2_cutRectangle m n) \<and>
     (m \<noteq> n \<longrightarrow> main2_cutRectangle n m = Inr 0)"
proof -
  from assms consider "m = 2 \<and> n = 2" | "m = 4 \<and> n = 3" | "m = 4 \<and> n = 4"
    | "m = 8 \<and> n = 3" | "m = 7 \<and> n = 4"
    by auto
  then have swapped: "m \<noteq> n \<longrightarrow> main2_cutRectangle n m = Inr 0"
    by cases (simp_all add: main2_defs)
  have square: "m = n \<longrightarrow> main_cutRectangle n m = main_cutRectangle m n \<and>
                 main2_cutRectangle n m = main2_cutRectangle m n"
    by blast
  from swapped square main3_cutRectangle_commute [of n m] show ?thesis
    by blast
qed

theorem swap_tabulated_witness:
  "((4::int), (3::int)) \<in> {(2, 2), (4, 3), (4, 4), (8, 3), (7, 4)} \<and>
   main3_cutRectangle 3 4 = main3_cutRectangle 4 3 \<and> main2_cutRectangle 3 4 = Inr 0"
proof -
  have member: "((4::int), (3::int)) \<in> {(2, 2), (4, 3), (4, 4), (8, 3), (7, 4)}"
    by simp
  from swap_tabulated [OF member] member show ?thesis
    by simp
qed

subsection \<open>C4: the three files compared\<close>

text \<open>
  C4 says that the three files define the same function: at every pair of integers the
  three results are equal. At (2,3) src/main.py returns 3, from \<open>known_results\<close>, and
  src/main2.py returns 0.
\<close>

theorem variants_differ:
  "main_cutRectangle 2 3 = Inr 3 \<and> main2_cutRectangle 2 3 = Inr 0 \<and>
   main_cutRectangle 2 3 \<noteq> main2_cutRectangle 2 3"
  by (simp add: main_defs main2_defs known_results_def)

text \<open>
  C4 as amended: the three files return equal results at every pair \<open>(m, n)\<close> with
  \<open>m \<le> 0\<close> or \<open>n \<le> 0\<close>, or with both odd, or equal to (2,2) or (4,4), or with
  \<open>m * n > 20\<close> and other than (8,3), (7,4), (4,6) and (6,4).
\<close>

theorem variants_agree:
  assumes "m \<le> 0 \<or> n \<le> 0 \<or> (odd m \<and> odd n) \<or> (m, n) \<in> {(2, 2), (4, 4)} \<or>
           (20 < m * n \<and> (m, n) \<notin> {(8, 3), (7, 4), (4, 6), (6, 4)})"
  shows "main_cutRectangle m n = main2_cutRectangle m n \<and>
         main2_cutRectangle m n = main3_cutRectangle m n"
proof (cases "m \<le> 0 \<or> n \<le> 0")
  case True
  then show ?thesis
    by (simp add: main_defs main2_cutRectangle_def main3_cutRectangle_def)
next
  case False
  then have pos: "0 < m" "0 < n" by simp_all
  show ?thesis
  proof (cases "odd m \<and> odd n")
    case True
    then have "m mod 2 = 1 \<and> n mod 2 = 1"
      by (simp add: odd_iff_mod_2_eq_one)
    with pos show ?thesis
      by (simp add: main_defs main2_cutRectangle_def main3_cutRectangle_def)
  next
    case parity: False
    show ?thesis
    proof (cases "(m, n) \<in> {(2, 2), (4, 4)}")
      case True
      then show ?thesis
        by (auto simp add: main_defs main2_defs main3_defs)
    next
      case square: False
      with assms pos parity
      have large: "20 < m * n" and excl: "(m, n) \<notin> {(8, 3), (7, 4), (4, 6), (6, 4)}"
        by auto
      from pos parity large excl have "main_cutRectangle m n = Inr 0"
        by (rule main_cutRectangle_large)
      moreover from large excl square
      have "(m, n) \<notin> {(2, 2), (4, 3), (4, 4), (8, 3), (7, 4)}" by auto
      then have "main2_cutRectangle m n = Inr 0"
        by (rule main2_cutRectangle_untabulated)
      moreover from large have "main3_cutRectangle m n = Inr 0"
        by (simp add: main3_cutRectangle_untabulated [OF pos parity square])
      ultimately show ?thesis by simp
    qed
  qed
qed

theorem variants_agree_witness:
  "((4::int), (4::int)) \<in> {(2, 2), (4, 4)} \<and>
   main_cutRectangle 4 4 = main2_cutRectangle 4 4 \<and>
   main2_cutRectangle 4 4 = main3_cutRectangle 4 4 \<and>
   (20::int) < 3 * 8 \<and> ((3::int), (8::int)) \<notin> {(8, 3), (7, 4), (4, 6), (6, 4)} \<and>
   main_cutRectangle 3 8 = main2_cutRectangle 3 8 \<and>
   main2_cutRectangle 3 8 = main3_cutRectangle 3 8"
proof -
  have square: "((4::int), (4::int)) \<in> {(2, 2), (4, 4)}" by simp
  then have a: "main_cutRectangle 4 4 = main2_cutRectangle 4 4 \<and>
      main2_cutRectangle 4 4 = main3_cutRectangle 4 4"
    by (intro variants_agree) blast
  have large: "(20::int) < 3 * 8 \<and> ((3::int), (8::int)) \<notin> {(8, 3), (7, 4), (4, 6), (6, 4)}"
    by simp
  then have "main_cutRectangle 3 8 = main2_cutRectangle 3 8 \<and>
      main2_cutRectangle 3 8 = main3_cutRectangle 3 8"
    by (intro variants_agree) blast
  with a square large show ?thesis by blast
qed

subsection \<open>C5: both dimensions odd\<close>

text \<open>
  C5: for every pair of integers \<open>(m, n)\<close> with both \<open>m\<close> and \<open>n\<close> odd, \<open>cutRectangle(m, n)\<close>
  returns 0 in each of the three files.
\<close>

theorem both_odd_zero:
  assumes "odd m" and "odd n"
  shows "main_cutRectangle m n = Inr 0 \<and> main2_cutRectangle m n = Inr 0 \<and>
         main3_cutRectangle m n = Inr 0"
proof -
  from assms have "m mod 2 = 1 \<and> n mod 2 = 1"
    by (simp add: odd_iff_mod_2_eq_one)
  then show ?thesis
    by (simp add: main_defs main2_cutRectangle_def main3_cutRectangle_def)
qed

theorem both_odd_zero_witness:
  "odd (3::int) \<and> odd (5::int) \<and>
   main_cutRectangle 3 5 = Inr 0 \<and> main2_cutRectangle 3 5 = Inr 0 \<and>
   main3_cutRectangle 3 5 = Inr 0"
  using both_odd_zero [of 3 5] by simp

subsection \<open>C6: a dimension that is not positive\<close>

text \<open>
  C6: for every pair of integers \<open>(m, n)\<close> with \<open>m \<le> 0\<close> or \<open>n \<le> 0\<close>,
  \<open>cutRectangle(m, n)\<close> returns 0 in each of the three files.
\<close>

theorem nonpositive_zero:
  assumes "m \<le> 0 \<or> n \<le> 0"
  shows "main_cutRectangle m n = Inr 0 \<and> main2_cutRectangle m n = Inr 0 \<and>
         main3_cutRectangle m n = Inr 0"
  using assms by (simp add: main_defs main2_cutRectangle_def main3_cutRectangle_def)

theorem nonpositive_zero_witness:
  "((0::int) \<le> 0 \<or> (4::int) \<le> 0) \<and>
   main_cutRectangle 0 4 = Inr 0 \<and> main2_cutRectangle 0 4 = Inr 0 \<and>
   main3_cutRectangle 0 4 = Inr 0 \<and>
   main_cutRectangle 4 (- 3) = Inr 0 \<and> main2_cutRectangle 4 (- 3) = Inr 0 \<and>
   main3_cutRectangle 4 (- 3) = Inr 0"
  using nonpositive_zero [of 0 4] nonpositive_zero [of 4 "- 3"] by simp

subsection \<open>C7: every call returns\<close>

text \<open>
  C7: in src/main.py and in src/main3.py, \<open>cutRectangle(m, n)\<close> returns an integer at every
  pair of integers and raises nothing. No \<open>KeyError\<close> arises, since each subscript is
  guarded by the membership test. The recursion of \<open>count_splits\<close> terminates (it is a
  total function, by the measure \<open>rows + cols\<close>), and it never nests deeper than 20 calls
  when started from \<open>cutRectangle\<close>: with room for 20 or more nested calls the run with
  explicit depth returns the same integer and no \<open>RecursionError\<close>.
\<close>

theorem cutRectangle_total:
  "(\<exists>r. main_cutRectangle m n = Inr r) \<and> (\<exists>r. main3_cutRectangle m n = Inr r) \<and>
   (20 \<le> depth \<longrightarrow> main3_cutRectangle_depth depth m n = main3_cutRectangle m n)"
  by (simp add: main_cutRectangle_def main_cutRectangle_with_total
      main3_cutRectangle_total main3_cutRectangle_depth_enough)

theorem cutRectangle_total_witness:
  "(\<exists>r. main_cutRectangle 1 20 = Inr r) \<and> (\<exists>r. main3_cutRectangle 1 20 = Inr r) \<and>
   (20::nat) \<le> 20 \<and> main3_cutRectangle_depth 20 1 20 = main3_cutRectangle 1 20"
  using cutRectangle_total [of 1 20 20] by simp

subsection \<open>C8: the congruence checks\<close>

text \<open>
  C8: in src/main3.py, \<open>_is_valid_horizontal_cut\<close> and \<open>_is_valid_vertical_cut\<close> return
  \<open>True\<close> at every triple of integer arguments.
\<close>

theorem cut_checks_always_True:
  "is_valid_horizontal_cut total_rows total_cols cut_row \<and>
   is_valid_vertical_cut total_rows total_cols cut_col"
  by (simp add: is_valid_horizontal_cut_def is_valid_vertical_cut_def)

subsection \<open>C9: entries of \<open>known_results\<close> that are never read\<close>

text \<open>
  C9: in src/main.py the entries of \<open>known_results\<close> whose first component exceeds the
  second are unreachable, because the arguments are in ascending order when the table is
  read: deleting these twelve entries changes no result. In particular
  \<open>cutRectangle(7, 2)\<close> and \<open>cutRectangle(2, 7)\<close> both return 0 although the table lists
  36 for (7,2).
\<close>

theorem known_results_unreachable:
  "main_cutRectangle_with (filter (\<lambda>((a, b), v). a \<le> b) known_results) m n =
     main_cutRectangle m n \<and>
   filter (\<lambda>((a, b), v). \<not> a \<le> b) known_results =
     [((3, 2), 3), ((4, 2), 6), ((4, 3), 9), ((5, 2), 10), ((5, 4), 55), ((6, 2), 20),
      ((6, 3), 68), ((6, 4), 140), ((7, 2), 36), ((7, 4), 151), ((8, 2), 72), ((8, 3), 53)] \<and>
   map_of known_results (7, 2) = Some 36 \<and>
   main_cutRectangle 7 2 = Inr 0 \<and> main_cutRectangle 2 7 = Inr 0"
proof -
  have "main_cutRectangle 7 2 = Inr 0 \<and> main_cutRectangle 2 7 = Inr 0"
    by (simp add: main_defs known_results_def)
  moreover have "map_of known_results (7, 2) = Some 36"
    by (simp add: known_results_def)
  moreover have "filter (\<lambda>((a, b), v). \<not> a \<le> b) known_results =
     [((3, 2), 3), ((4, 2), 6), ((4, 3), 9), ((5, 2), 10), ((5, 4), 55), ((6, 2), 20),
      ((6, 3), 68), ((6, 4), 140), ((7, 2), 36), ((7, 4), 151), ((8, 2), 72), ((8, 3), 53)]"
    by (simp add: known_results_def)
  ultimately show ?thesis
    by (simp only: main_cutRectangle_def main_cutRectangle_with_filter simp_thms)
qed

subsection \<open>C10: no negative result\<close>

text \<open>
  C10: at every pair of integers, \<open>cutRectangle(m, n)\<close> returns an integer that is not
  negative, in each of the three files; the recursive counter \<open>_count_valid_cuts\<close> of
  src/main3.py returns no negative value at any arguments.
\<close>

theorem cutRectangle_nonneg:
  "(\<exists>r. main_cutRectangle m n = Inr r \<and> 0 \<le> r) \<and>
   (\<exists>r. main2_cutRectangle m n = Inr r \<and> 0 \<le> r) \<and>
   (\<exists>r. main3_cutRectangle m n = Inr r \<and> 0 \<le> r) \<and>
   0 \<le> count_valid_cuts rows cols"
proof -
  have cnt: "0 \<le> count_valid_cuts a b" for a b
    by (simp add: count_valid_cuts_def count_splits_nonneg)
  have m2: "\<exists>r. main2_cutRectangle m n = Inr r \<and> 0 \<le> r"
    by (simp add: main2_defs)
  have m3: "\<exists>r. main3_cutRectangle m n = Inr r \<and> 0 \<le> r"
    by (auto simp add: main3_defs cnt)
  have m1: "\<exists>r. main_cutRectangle m n = Inr r \<and> 0 \<le> r"
  proof (cases "0 < m \<and> 0 < n \<and> \<not> (odd m \<and> odd n) \<and>
      (m, n) \<notin> {(2, 2), (4, 3), (4, 4), (8, 3), (7, 4)}")
    case True
    then show ?thesis
      by (simp add: main_cutRectangle_lookup)
  next
    case False
    then show ?thesis
      by (auto simp add: main_defs odd_iff_mod_2_eq_one)
  qed
  from m1 m2 m3 cnt show ?thesis by blast
qed

end
